theory Spec2Isabelle
  imports Main
begin

unbundle bit_operations_syntax

section \<open>Values and errors (error.go)\<close>

text \<open>
  Go's dynamically typed values (\<open>interface{}\<close>) that travel through the client are decoded
  JSON documents. A JSON number is a \<open>float64\<close> in Go; it is carried here as an integer
  payload, since nothing below computes with it.
\<close>

datatype json =
    JNull
  | JBool bool
  | JNum int
  | JStr string
  | JArr "json list"
  | JObj "(string \<times> json) list"

text \<open>
  The package's sentinel errors, the structured error \<open>JSONRPCError{Code, Data, Message}\<close>,
  \<open>fmt.Errorf("prefix: %w", err)\<close> as \<open>Wrapped prefix err\<close>, and an error produced by one of
  the libraries the client calls (transport, codec, query parser) as \<open>External\<close>.
\<close>

datatype error =
    ErrInvalidCredentials
  | ErrMissingChannel
  | ErrMissingIDField
  | ErrNotConnected
  | ErrInvalidMsg
  | ErrUnknownResponse
  | ErrUnsupportedMsg
  | ErrMissingData
  | ErrMissingCallback
  | JSONRPCError int json string
  | Wrapped string error
  | External string

text \<open>A call either returns or panics (a nil dereference).\<close>

datatype 'a outcome = Returns 'a | Panics

section \<open>Paths\<close>

type_synonym Path = string

text \<open>
  \<open>strings.Fields\<close>: the maximal runs of non-space bytes, in order. The space bytes are the
  six of Go's \<open>asciiSpace\<close> table. (For a string with bytes above 0x7F Go switches to
  \<open>unicode.IsSpace\<close> on runes, which also splits at the non-ASCII spaces; the theorems below
  only use that \<open>Fields\<close> yields a list of segments.)
\<close>

definition asciiSpace :: "char \<Rightarrow> bool" where
  "asciiSpace c \<longleftrightarrow> c \<in> set [CHR 0x09, CHR 0x0A, CHR 0x0B, CHR 0x0C, CHR 0x0D, CHR '' '']"

function Fields :: "string \<Rightarrow> string list" where
  "Fields s =
     (let s' = dropWhile asciiSpace s
      in if s' = [] then []
         else takeWhile (\<lambda>c. \<not> asciiSpace c) s' # Fields (dropWhile (\<lambda>c. \<not> asciiSpace c) s'))"
  by pat_completeness auto
termination
proof (relation "measure length")
  show "wf (measure length)" by simp
next
  fix s s' :: string
  assume s': "s' = dropWhile asciiSpace s" and ne: "s' \<noteq> []"
  from ne obtain c cs where cs: "s' = c # cs" by (cases s') auto
  have "dropWhile asciiSpace s \<noteq> []" using ne s' by blast
  then have "\<not> asciiSpace (hd (dropWhile asciiSpace s))" by (rule hd_dropWhile)
  then have "\<not> asciiSpace c" using s' cs by (metis list.sel(1))
  then have "length (dropWhile (\<lambda>c. \<not> asciiSpace c) s') \<le> length cs"
    using cs by (simp add: length_dropWhile_le)
  also have "length cs < length s'" using cs by simp
  also have "length s' \<le> length s" using s' by (simp add: length_dropWhile_le)
  finally show "(dropWhile (\<lambda>c. \<not> asciiSpace c) s', s) \<in> measure length" by simp
qed

declare Fields.simps [simp del]

text \<open>\<open>map[string]interface{}{"Query": strings.Fields(string(p))}\<close>\<close>

definition toSubQuery :: "Path \<Rightarrow> json" where
  "toSubQuery p = JObj [(''Query'', JArr (map JStr (Fields p)))]"

text \<open>\<open>map[string]interface{}{"Path": strings.Fields(string(p))}\<close>\<close>

definition toGetParams :: "Path \<Rightarrow> json" where
  "toGetParams p = JObj [(''Path'', JArr (map JStr (Fields p)))]"

text \<open>
  \<open>result := "$."\<close>, then for each field \<open>result = fmt.Sprintf("%s.%s", result, x)\<close>.
\<close>

definition toJSONPath :: "Path \<Rightarrow> string" where
  "toJSONPath p = foldl (\<lambda>result x. result @ ''.'' @ x) ''$.'' (Fields p)"

text \<open>
  The rendering as the specification words it, for comparison with \<open>toJSONPath\<close>: \<open>$\<close>
  followed by one dot before each segment.
\<close>

definition spec_dot_path :: "string list \<Rightarrow> string" where
  "spec_dot_path segs = ''$'' @ concat (map (\<lambda>seg. ''.'' @ seg) segs)"

text \<open>
  Reading the renderings back, to state what they contain: the string list under a key of
  a parameter object, and the segments of a dot-delimited query (the pieces between dots
  after the root \<open>$\<close>; an empty piece is no segment).
\<close>

fun strings_of :: "json list \<Rightarrow> string list option" where
  "strings_of [] = Some []"
| "strings_of (JStr s # js) = map_option ((#) s) (strings_of js)"
| "strings_of (_ # js) = None"

definition segments_at :: "string \<Rightarrow> json \<Rightarrow> string list option" where
  "segments_at key params =
     (case params of
        JObj [(k, JArr js)] \<Rightarrow> if k = key then strings_of js else None
      | _ \<Rightarrow> None)"

fun split_at :: "char \<Rightarrow> string \<Rightarrow> string list" where
  "split_at d [] = [[]]"
| "split_at d (c # cs) =
     (if c = d then [] # split_at d cs
      else (c # hd (split_at d cs)) # tl (split_at d cs))"

definition dot_segments :: "string \<Rightarrow> string list option" where
  "dot_segments q =
     (case split_at (CHR ''.'') q of
        root # pieces \<Rightarrow> if root = ''$'' then Some (filter (\<lambda>x. x \<noteq> []) pieces) else None
      | [] \<Rightarrow> None)"

section \<open>Credentials\<close>

text \<open>
  \<open>encoding/base64\<close>: \<open>Encoding.Encode\<close> for an alphabet \<open>enc\<close> of 64 bytes and a padding
  (\<open>None\<close> is \<open>NoPadding\<close>). Three source bytes make a 24-bit \<open>val\<close> and four output bytes
  \<open>enc[val>>18&0x3F]\<close>, \<open>enc[val>>12&0x3F]\<close>, \<open>enc[val>>6&0x3F]\<close>, \<open>enc[val&0x3F]\<close>; the
  last one or two bytes make two or three output bytes and the padding. \<open>val\<close> is a Go
  \<open>uint\<close> below \<open>2^24\<close>, so a natural number holds it without wrap-around.
\<close>

definition sextet :: "nat \<Rightarrow> nat \<Rightarrow> nat" where
  "sextet val k = drop_bit k val AND 0x3F"

fun Encode :: "string \<Rightarrow> char option \<Rightarrow> string \<Rightarrow> string" where
  "Encode enc pad (a # b # c # src) =
     (let val = push_bit 16 (of_char a) OR push_bit 8 (of_char b) OR of_char c
      in [enc ! sextet val 18, enc ! sextet val 12, enc ! sextet val 6, enc ! sextet val 0]
         @ Encode enc pad src)"
| "Encode enc pad [a, b] =
     (let val = push_bit 16 (of_char a) OR push_bit 8 (of_char b)
      in [enc ! sextet val 18, enc ! sextet val 12, enc ! sextet val 6]
         @ (case pad of None \<Rightarrow> [] | Some p \<Rightarrow> [p]))"
| "Encode enc pad [a] =
     (let val = push_bit 16 (of_char a)
      in [enc ! sextet val 18, enc ! sextet val 12]
         @ (case pad of None \<Rightarrow> [] | Some p \<Rightarrow> [p, p]))"
| "Encode enc pad [] = []"

definition encodeStd :: string where
  "encodeStd = ''ABCDEFGHIJKLMNOPQRSTUVWXYZabcdefghijklmnopqrstuvwxyz0123456789+/''"

definition encodeURL :: string where
  "encodeURL = ''ABCDEFGHIJKLMNOPQRSTUVWXYZabcdefghijklmnopqrstuvwxyz0123456789-_''"

text \<open>\<open>base64.StdEncoding.EncodeToString\<close>: the standard alphabet, padded with \<open>=\<close>.\<close>

definition StdEncoding :: "string \<Rightarrow> string" where
  "StdEncoding src = Encode encodeStd (Some (CHR ''='')) src"

text \<open>
  The encoding the specification names: base64url, the URL-safe alphabet, no padding
  (Go's \<open>base64.RawURLEncoding\<close>). The code does not call it; it is what the code's output
  is compared with.
\<close>

definition RawURLEncoding :: "string \<Rightarrow> string" where
  "RawURLEncoding src = Encode encodeURL None src"

text \<open>
  \<open>strings.NewReplacer("+", "-", "/", "_", "=", "")\<close>: every old string is one byte, so
  \<open>Replace\<close> rewrites byte by byte.
\<close>

definition replaceByte :: "char \<Rightarrow> string" where
  "replaceByte c =
     (if c = CHR ''+'' then ''-''
      else if c = CHR ''/'' then ''_''
      else if c = CHR ''='' then ''''
      else [c])"

definition Replace :: "string \<Rightarrow> string" where
  "Replace s = concat (map replaceByte s)"

definition credPrefix :: string where
  "credPrefix = ''auth-''"

definition encCreds :: "string \<Rightarrow> string \<Rightarrow> error + string" where
  "encCreds user password =
     (if user = '''' \<or> password = '''' then Inl ErrInvalidCredentials
      else Inr (credPrefix @ Replace (StdEncoding (user @ '':'' @ password))))"

section \<open>The client (client.go)\<close>

subsection \<open>Messages, the transport and the libraries\<close>

text \<open>
  A \<open>float64\<close> that holds a sequence id. The counter starts at 0 and is only ever
  incremented, so it holds a natural number; \<open>c.seq++\<close> is exact below \<open>2^53\<close> and leaves
  the value unchanged at \<open>2^53\<close>, where \<open>2^53 + 1\<close> is not a \<open>float64\<close> and rounds back
  (ties to even). An id on the wire that is no natural number matches no pending entry, as
  any absent natural number does.
\<close>

type_synonym float64 = nat

definition incr :: "float64 \<Rightarrow> float64" where
  "incr x = (if x < 2 ^ 53 then x + 1 else x)"

type_synonym Command = string

definition feedbackSusbscribe :: Command where
  "feedbackSusbscribe = ''xFeedback/Subscribe''"

definition feedbackUnsubscribe :: Command where
  "feedbackUnsubscribe = ''xFeedback/Unsubscribe''"

definition getCommand :: Command where
  "getCommand = ''xGet''"

text \<open>
  A decoded frame of the \<open>jsonrpc2\<close> library: what \<open>GetType()\<close> answers, the \<open>ID\<close> (an
  \<open>interface{}\<close>: a \<open>float64\<close> or anything else, nil included), and the pointer fields
  \<open>Params\<close>, \<open>Result\<close> and \<open>Error\<close> (\<open>None\<close> is nil).
\<close>

datatype MsgType =
    TypeRequestMsg
  | TypeErrorMsg
  | TypeInvalidMsg
  | TypeSuccessMsg
  | TypeNotificationMsg

datatype msgID = IDFloat float64 | IDOther

record JsonRpcMessage =
  GetType :: MsgType
  ID :: msgID
  Params :: "string option"
  Result :: "string option"
  Error :: "(int \<times> string \<times> json) option"

text \<open>
  The \<open>rpcClient\<close> interface, as a scripted connection: the results \<open>ReadMessage\<close> will
  return, in order (when the script is exhausted the connection is closed and the read
  fails), the requests written so far, and what \<open>WriteMessage\<close> and \<open>Close\<close> answer.
\<close>

record rpcClient =
  inbound :: "(error + JsonRpcMessage) list"
  outbound :: "(float64 \<times> Command \<times> string) list"
  writeErr :: "error option"
  closeErr :: "error option"

definition ReadMessage :: "rpcClient \<Rightarrow> (error + JsonRpcMessage) \<times> rpcClient" where
  "ReadMessage rpc =
     (case inbound rpc of
        [] \<Rightarrow> (Inl (External ''connection closed''), rpc)
      | r # rs \<Rightarrow> (r, rpc\<lparr>inbound := rs\<rparr>))"

definition WriteMessage :: "rpcClient \<Rightarrow> float64 \<times> Command \<times> string \<Rightarrow> error option \<times> rpcClient" where
  "WriteMessage rpc msg =
     (case writeErr rpc of
        Some err \<Rightarrow> (Some err, rpc)
      | None \<Rightarrow> (None, rpc\<lparr>outbound := outbound rpc @ [msg]\<rparr>))"

text \<open>
  The functions of \<open>ojg\<close> and \<open>encoding/json\<close> the client calls, as parameters: parsing a
  payload, parsing a query (\<open>'q\<close> is the parsed query), evaluating it, and the JSON codec.
\<close>

record 'q libs =
  oj_ParseString :: "string \<Rightarrow> json option"
  jp_ParseString :: "string \<Rightarrow> 'q option"
  jp_Get :: "'q \<Rightarrow> json \<Rightarrow> json list"
  json_Unmarshal :: "string \<Rightarrow> json option"
  json_Marshal :: "json \<Rightarrow> string option"

text \<open>
  The \<open>Client\<close> struct. A callback is a \<open>'cb option\<close>, \<open>None\<close> being the nil
  \<open>CallbackFunc\<close>. A response channel is the list of values sent on it. A nil map is the
  empty map: both maps are written only after \<open>ConnectContext\<close> has made them, since a
  write needs \<open>client\<close> to be set. The locks are not modelled: each critical section is one
  step of the model.
\<close>

type_synonym chan = "(error + json) list"

record 'cb Client =
  User :: string
  Password :: string
  Insecure :: bool
  URL :: string
  client :: "rpcClient option"
  seq :: float64
  callbacks :: "Path \<rightharpoonup> 'cb option"
  responseChans :: "float64 \<rightharpoonup> chan"

subsection \<open>Connecting and closing\<close>

text \<open>
  \<open>ConnectContext\<close>: \<open>dial\<close> is the websocket dialer given the credential header and
  \<open>bodyClose\<close> what closing the handshake response's body answers.
\<close>

definition ConnectContext ::
  "(string \<Rightarrow> error + rpcClient) \<Rightarrow> error option \<Rightarrow> 'cb Client \<Rightarrow> error option \<times> 'cb Client" where
  "ConnectContext dial bodyClose c =
     (let c1 = c\<lparr>callbacks := Map.empty, responseChans := Map.empty\<rparr>
      in case encCreds (User c1) (Password c1) of
           Inl err \<Rightarrow> (Some (Wrapped ''connect'' err), c1)
         | Inr encpw \<Rightarrow>
             (case dial encpw of
                Inl err \<Rightarrow> (Some (Wrapped ''dial'' err), c1)
              | Inr wsc \<Rightarrow>
                  (case bodyClose of
                     Some err \<Rightarrow> (Some (Wrapped ''connect'' err), c1)
                   | None \<Rightarrow> (None, c1\<lparr>client := Some wsc\<rparr>))))"

text \<open>\<open>Close\<close> calls \<open>c.client.Close()\<close> with no check of \<open>c.client\<close>.\<close>

definition Close :: "'cb Client \<Rightarrow> error option outcome" where
  "Close c =
     (case client c of
        None \<Rightarrow> Panics
      | Some rpc \<Rightarrow>
          (case closeErr rpc of
             Some err \<Rightarrow> Returns (Some (Wrapped ''xapi client close'' err))
           | None \<Rightarrow> Returns None))"

subsection \<open>Sending a command\<close>

text \<open>What \<open>sendCommand\<close> makes of the value \<open>r\<close> it receives on its channel.\<close>

fun received :: "error + json \<Rightarrow> json option \<times> error option" where
  "received (Inl err) = (None, Some err)"
| "received (Inr (JObj m)) = (Some (JObj m), None)"
| "received (Inr (JNum n)) = (Some (JNum n), None)"
| "received (Inr v) = (None, Some (Wrapped ''receive'' ErrUnknownResponse))"

text \<open>
  \<open>sendCommand\<close>, with the value the receive loop will send on the channel as the
  parameter \<open>r\<close>. The deferred function removes the table entry on every path after it
  was armed.
\<close>

definition sendCommand ::
  "'q libs \<Rightarrow> error + json \<Rightarrow> 'cb Client \<Rightarrow> Command \<Rightarrow> json
    \<Rightarrow> (json option \<times> error option) \<times> 'cb Client" where
  "sendCommand L r c command params =
     (case client c of
        None \<Rightarrow> ((None, Some ErrNotConnected), c)
      | Some rpc \<Rightarrow>
          (let c1 = c\<lparr>seq := incr (seq c)\<rparr>;
               myseq = seq c1
           in case json_Marshal L params of
                None \<Rightarrow> ((None, Some (External ''json.Marshal'')), c1)
              | Some data \<Rightarrow>
                  (let c2 = c1\<lparr>responseChans := (responseChans c1)(myseq \<mapsto> [])\<rparr>;
                       w = WriteMessage rpc (myseq, command, data);
                       c3 = c2\<lparr>client := Some (snd w),
                               responseChans := (responseChans c2)(myseq := None)\<rparr>
                   in case fst w of
                        Some err \<Rightarrow> ((None, Some (Wrapped ''write message'' err)), c3)
                      | None \<Rightarrow> (received r, c3))))"

text \<open>
  A run of invocations on one session, in the order in which they pass the counter's
  critical section; each invocation is its reply, command and parameters. The id an
  invocation is given is the counter's value when it leaves the critical section.
\<close>

fun sendCommands ::
  "'q libs \<Rightarrow> 'cb Client \<Rightarrow> ((error + json) \<times> Command \<times> json) list \<Rightarrow> float64 list \<times> 'cb Client" where
  "sendCommands L c [] = ([], c)"
| "sendCommands L c ((r, command, params) # calls) =
     (let c' = snd (sendCommand L r c command params);
          rest = sendCommands L c' calls
      in (seq c' # fst rest, snd rest))"

subsection \<open>Subscriptions\<close>

text \<open>
  \<open>Subscribe\<close> returns the cancel function of the path (here: the path it will cancel) or
  the error; \<open>cancelFunc path\<close>, once called, deletes the entry and sends the unsubscribe
  command.
\<close>

definition Subscribe ::
  "'q libs \<Rightarrow> error + json \<Rightarrow> 'cb Client \<Rightarrow> Path \<Rightarrow> 'cb option
    \<Rightarrow> (Path option \<times> error option) \<times> 'cb Client" where
  "Subscribe L r c path callback =
     (case sendCommand L r c feedbackSusbscribe (toSubQuery path) of
        ((_, Some err), c') \<Rightarrow> ((None, Some err), c')
      | ((_, None), c') \<Rightarrow>
          ((Some path, None), c'\<lparr>callbacks := (callbacks c')(path \<mapsto> callback)\<rparr>))"

definition cancelFunc ::
  "'q libs \<Rightarrow> error + json \<Rightarrow> 'cb Client \<Rightarrow> Path \<Rightarrow> error option \<times> 'cb Client" where
  "cancelFunc L r c path =
     (let c1 = c\<lparr>callbacks := (callbacks c)(path := None)\<rparr>;
          res = sendCommand L r c1 feedbackUnsubscribe (toSubQuery path)
      in (snd (fst res), snd res))"

definition Get ::
  "'q libs \<Rightarrow> error + json \<Rightarrow> 'cb Client \<Rightarrow> Path \<Rightarrow> (json option \<times> error option) \<times> 'cb Client" where
  "Get L r c path = sendCommand L r c getCommand (toGetParams path)"

subsection \<open>The receive loop\<close>

text \<open>
  \<open>for k, v := range c.callbacks\<close> visits every entry once, in an order the runtime
  picks. The order is the parameter \<open>order\<close>, a list of the keys; \<open>ranged\<close> is the entries
  in that order, and \<open>range_order\<close> says that \<open>order\<close> is such an order of a map.
\<close>

definition range_order :: "('k \<rightharpoonup> 'v) \<Rightarrow> 'k list \<Rightarrow> bool" where
  "range_order m order \<longleftrightarrow> distinct order \<and> set order = dom m"

definition ranged :: "('k \<rightharpoonup> 'v) \<Rightarrow> 'k list \<Rightarrow> ('k \<times> 'v) list" where
  "ranged m order = List.map_filter (\<lambda>k. map_option (Pair k) (m k)) order"

text \<open>
  The loop of \<open>runCallbacks\<close>: the pair \<open>(res, cbFunc)\<close> it leaves, both nil at the start,
  or the error of a query that does not parse.
\<close>

fun rangeCallbacks ::
  "'q libs \<Rightarrow> json \<Rightarrow> (Path \<times> 'cb option) list \<Rightarrow> error + (json list option \<times> 'cb option)" where
  "rangeCallbacks L event [] = Inr (None, None)"
| "rangeCallbacks L event ((k, v) # kvs) =
     (case jp_ParseString L (toJSONPath k) of
        None \<Rightarrow> Inl (Wrapped ''jpath'' (External ''jp.ParseString''))
      | Some cjp \<Rightarrow>
          (let r = jp_Get L cjp event
           in if length r > 0 \<and> v \<noteq> None then Inr (Some r, v)
              else rangeCallbacks L event kvs))"

text \<open>
  \<open>runCallbacks\<close> returns its error, or starts one goroutine \<open>go cbFunc(res)\<close>: the second
  component is the callback started and its argument.
\<close>

definition runCallbacks ::
  "'q libs \<Rightarrow> Path list \<Rightarrow> 'cb Client \<Rightarrow> JsonRpcMessage
    \<Rightarrow> (error option \<times> ('cb \<times> json list) option) outcome" where
  "runCallbacks L order c msg =
     (case Params msg of
        None \<Rightarrow> Panics
      | Some params \<Rightarrow>
          (case oj_ParseString L params of
             None \<Rightarrow> Returns (Some (Wrapped ''running callback'' (External ''oj.ParseString'')), None)
           | Some event \<Rightarrow>
               (case rangeCallbacks L event (ranged (callbacks c) order) of
                  Inl err \<Rightarrow> Returns (Some err, None)
                | Inr (res, cbFunc) \<Rightarrow>
                    (case res of
                       None \<Rightarrow> Returns (Some ErrMissingData, None)
                     | Some r \<Rightarrow>
                         (case cbFunc of
                            None \<Rightarrow> Returns (Some ErrMissingCallback, None)
                          | Some cb \<Rightarrow> Returns (None, Some (cb, r)))))))"

text \<open>
  The result of one subscription's query on a payload: the two lines
  \<open>jp.ParseString(k.toJSONPath())\<close> and \<open>cjp.Get(event)\<close> of the loop; \<open>None\<close> when
  the query does not parse.
\<close>

definition query :: "'q libs \<Rightarrow> json \<Rightarrow> Path \<Rightarrow> json list option" where
  "query L event k = map_option (\<lambda>cjp. jp_Get L cjp event) (jp_ParseString L (toJSONPath k))"

definition chanResponse ::
  "'cb Client \<Rightarrow> JsonRpcMessage \<Rightarrow> error + json \<Rightarrow> error option \<times> 'cb Client" where
  "chanResponse c msg res =
     (case ID msg of
        IDOther \<Rightarrow> (Some ErrMissingIDField, c)
      | IDFloat k \<Rightarrow>
          (case responseChans c k of
             None \<Rightarrow> (Some ErrMissingChannel, c)
           | Some ch \<Rightarrow> (None, c\<lparr>responseChans := (responseChans c)(k \<mapsto> ch @ [res])\<rparr>)))"

text \<open>
  One turn of the loop: the error it returns (\<open>None\<close> is nil), the goroutines it started
  and the client after it. \<open>runLoop\<close> reads a frame; \<open>runLoop_switch\<close> is its
  \<open>switch msg.GetType()\<close>.
\<close>

type_synonym 'cb turn = "(error option \<times> ('cb \<times> json list) list \<times> 'cb Client) outcome"

definition runLoop_switch :: "'q libs \<Rightarrow> Path list \<Rightarrow> 'cb Client \<Rightarrow> JsonRpcMessage \<Rightarrow> 'cb turn" where
  "runLoop_switch L order c msg =
     (case GetType msg of
        TypeRequestMsg \<Rightarrow> Returns (Some (Wrapped ''type request'' ErrUnsupportedMsg), [], c)
      | TypeErrorMsg \<Rightarrow>
          (case Error msg of
             None \<Rightarrow> Panics
           | Some (code, message, data) \<Rightarrow>
               (let res = chanResponse c msg (Inl (JSONRPCError code data message))
                in Returns (fst res, [], snd res)))
      | TypeInvalidMsg \<Rightarrow>
          (let res = chanResponse c msg (Inl ErrInvalidMsg)
           in Returns (fst res, [], snd res))
      | TypeSuccessMsg \<Rightarrow>
          (case Result msg of
             None \<Rightarrow> Panics
           | Some raw \<Rightarrow>
               (case json_Unmarshal L raw of
                  None \<Rightarrow> Returns (Some (External ''json.Unmarshal''), [], c)
                | Some v \<Rightarrow>
                    (let res = chanResponse c msg (Inr v)
                     in Returns (fst res, [], snd res))))
      | TypeNotificationMsg \<Rightarrow>
          (case runCallbacks L order c msg of
             Panics \<Rightarrow> Panics
           | Returns (err, started) \<Rightarrow>
               Returns (err, (case started of None \<Rightarrow> [] | Some g \<Rightarrow> [g]), c)))"

definition runLoop :: "'q libs \<Rightarrow> Path list \<Rightarrow> 'cb Client \<Rightarrow> 'cb turn" where
  "runLoop L order c =
     (case client c of
        None \<Rightarrow> Panics
      | Some rpc \<Rightarrow>
          (let rd = ReadMessage rpc;
               c1 = c\<lparr>client := Some (snd rd)\<rparr>
           in case fst rd of
                Inl err \<Rightarrow> Returns (Some (Wrapped ''runloop'' err), [], c1)
              | Inr msg \<Rightarrow> runLoop_switch L order c1 msg))"

text \<open>
  A reply frame that \<open>runLoop\<close> hands to \<open>chanResponse\<close>: an error reply, an invalid
  message, or a success reply whose result decodes.
\<close>

definition reply_frame :: "'q libs \<Rightarrow> JsonRpcMessage \<Rightarrow> bool" where
  "reply_frame L msg =
     (case GetType msg of
        TypeErrorMsg \<Rightarrow> Error msg \<noteq> None
      | TypeInvalidMsg \<Rightarrow> True
      | TypeSuccessMsg \<Rightarrow>
          (case Result msg of None \<Rightarrow> False | Some raw \<Rightarrow> json_Unmarshal L raw \<noteq> None)
      | _ \<Rightarrow> False)"

text \<open>The number of scripted reads left: the measure of the loop of \<open>Run\<close>.\<close>

definition unread :: "'cb Client \<Rightarrow> nat" where
  "unread c = (case client c of None \<Rightarrow> 0 | Some rpc \<Rightarrow> length (inbound rpc))"

text \<open>
  \<open>Run\<close>: \<open>for { if err := c.runLoop(); err != nil { return err } }\<close>. \<open>orders\<close> gives the
  order of each \<open>range\<close>, by the number of reads left when the turn starts.
\<close>

function Run_for :: "'q libs \<Rightarrow> (nat \<Rightarrow> Path list) \<Rightarrow> 'cb Client \<Rightarrow> 'cb turn" where
  "Run_for L orders c =
     (case runLoop L (orders (unread c)) c of
        Panics \<Rightarrow> Panics
      | Returns (Some err, started, c') \<Rightarrow> Returns (Some err, started, c')
      | Returns (None, started, c') \<Rightarrow>
          (case Run_for L orders c' of
             Panics \<Rightarrow> Panics
           | Returns (err, started', c'') \<Rightarrow> Returns (err, started @ started', c'')))"
  by pat_completeness auto
termination
proof (relation "measure (\<lambda>(L, orders, c). unread c)")
  show "wf (measure (\<lambda>(L, orders, c). unread c))" by simp
next
  fix L :: "'q libs" and orders :: "nat \<Rightarrow> Path list" and c c' :: "'cb Client"
    and x1 x y and started :: "('cb \<times> json list) list"
  assume "runLoop L (orders (unread c)) c = Returns x1" "(x, y) = x1" "x = None"
    "(started, c') = y"
  then have run: "runLoop L (orders (unread c)) c = Returns (None, started, c')" by auto
  then obtain rpc where rpc: "client c = Some rpc"
    by (cases "client c") (simp_all add: runLoop_def)
  from run rpc obtain msg rs where rd: "inbound rpc = Inr msg # rs"
    by (cases "inbound rpc"; cases "hd (inbound rpc)")
       (auto simp: runLoop_def ReadMessage_def Let_def)
  let ?c1 = "c\<lparr>client := Some (rpc\<lparr>inbound := rs\<rparr>)\<rparr>"
  from run rpc rd have sw: "runLoop_switch L (orders (unread c)) ?c1 msg = Returns (None, started, c')"
    by (simp add: runLoop_def ReadMessage_def Let_def)
  have "client c' = client ?c1"
    using sw
    by (auto simp: runLoop_switch_def chanResponse_def Let_def
             split: MsgType.splits option.splits msgID.splits outcome.splits prod.splits)
  then have "unread c' < unread c"
    using rpc rd by (simp add: unread_def)
  then show "((L, orders, c'), (L, orders, c)) \<in> measure (\<lambda>(L, orders, c). unread c)"
    by simp
qed

declare Run_for.simps [simp del]

definition Run :: "'q libs \<Rightarrow> (nat \<Rightarrow> Path list) \<Rightarrow> 'cb Client \<Rightarrow> 'cb turn" where
  "Run L orders c =
     (case client c of
        None \<Rightarrow> Returns (Some ErrNotConnected, [], c)
      | Some rpc \<Rightarrow> Run_for L orders c)"

section \<open>Concrete inputs\<close>

text \<open>
  Stand-ins for the libraries, to run the model on concrete inputs: a payload parser that
  knows two documents (written without the quotes of JSON), a query that is its list of
  segments, and a query evaluation that follows the segments from the root.
\<close>

fun get_path :: "string list \<Rightarrow> json \<Rightarrow> json list" where
  "get_path [] v = [v]"
| "get_path (k # ks) (JObj m) = (case map_of m k of None \<Rightarrow> [] | Some v \<Rightarrow> get_path ks v)"
| "get_path (k # ks) v = []"

definition stub_parse :: "string \<Rightarrow> json option" where
  "stub_parse s =
     (if s = ''{Status:{Audio:{Volume:50}}}''
      then Some (JObj [(''Status'', JObj [(''Audio'', JObj [(''Volume'', JNum 50)])])])
      else if s = ''{Id:1}'' then Some (JObj [(''Id'', JNum 1)])
      else None)"

definition stub_libs :: "string list libs" where
  "stub_libs =
     \<lparr>oj_ParseString = stub_parse, jp_ParseString = dot_segments, jp_Get = get_path,
      json_Unmarshal = stub_parse, json_Marshal = (\<lambda>v. Some ''{}'')\<rparr>"

definition stub_rpc :: rpcClient where
  "stub_rpc = \<lparr>inbound = [], outbound = [], writeErr = None, closeErr = None\<rparr>"

text \<open>
  A \<open>Client\<close> as a caller makes it (no connection yet), the same after a connection was
  established, and clients with a registry or with frames to read.
\<close>

definition zero_Client :: "string Client" where
  "zero_Client =
     \<lparr>User = ''bob'', Password = ''secret'', Insecure = False, URL = ''wss://device/ws'',
      client = None, seq = 0, callbacks = Map.empty, responseChans = Map.empty\<rparr>"

definition connected_Client :: "string Client" where
  "connected_Client = zero_Client\<lparr>client := Some stub_rpc\<rparr>"


definition nil_callback_Client :: "string Client" where
  "nil_callback_Client = connected_Client\<lparr>callbacks := [''Status Audio'' \<mapsto> None]\<rparr>"

definition late_reply :: JsonRpcMessage where
  "late_reply = \<lparr>GetType = TypeSuccessMsg, ID = IDFloat 7, Params = None,
                 Result = Some ''{Id:1}'', Error = None\<rparr>"

definition volume_event :: JsonRpcMessage where
  "volume_event = \<lparr>GetType = TypeNotificationMsg, ID = IDOther,
                   Params = Some ''{Status:{Audio:{Volume:50}}}'', Result = None, Error = None\<rparr>"

definition late_reply_Client :: "string Client" where
  "late_reply_Client =
     connected_Client\<lparr>client := Some (stub_rpc\<lparr>inbound := [Inr late_reply, Inr volume_event]\<rparr>),
                      callbacks := [''Status Audio'' \<mapsto> Some ''onAudio'']\<rparr>"

section \<open>Properties of the path renderings\<close>

lemma foldl_dots:
  "foldl (\<lambda>result x. result @ ''.'' @ x) acc xs = acc @ concat (map (\<lambda>x. ''.'' @ x) xs)"
  by (induction xs arbitrary: acc) simp_all

lemma Fields_nonempty: "seg \<in> set (Fields p) \<Longrightarrow> seg \<noteq> []"
proof (induction p rule: Fields.induct)
  case (1 s)
  define s' where "s' = dropWhile asciiSpace s"
  show ?case
  proof (cases "s' = []")
    case True
    then have "Fields s = []" by (subst Fields.simps) (simp add: s'_def)
    with "1.prems" show ?thesis by simp
  next
    case False
    have eq: "Fields s = takeWhile (\<lambda>c. \<not> asciiSpace c) s' # Fields (dropWhile (\<lambda>c. \<not> asciiSpace c) s')"
      using False by (subst Fields.simps) (simp add: s'_def Let_def)
    from False have "\<not> asciiSpace (hd s')" unfolding s'_def by (rule hd_dropWhile)
    with False have tw: "takeWhile (\<lambda>c. \<not> asciiSpace c) s' \<noteq> []"
      by (cases s') auto
    from "1.prems" eq have "seg = takeWhile (\<lambda>c. \<not> asciiSpace c) s' \<or>
        seg \<in> set (Fields (dropWhile (\<lambda>c. \<not> asciiSpace c) s'))" by simp
    then show ?thesis
    proof
      assume "seg = takeWhile (\<lambda>c. \<not> asciiSpace c) s'"
      with tw show ?thesis by simp
    next
      assume "seg \<in> set (Fields (dropWhile (\<lambda>c. \<not> asciiSpace c) s'))"
      with "1.IH" [OF s'_def False] show ?thesis .
    qed
  qed
qed

lemma strings_of_JStr: "strings_of (map JStr xs) = Some xs"
  by (induction xs) simp_all

lemma split_at_nodot: "d \<notin> set s \<Longrightarrow> split_at d s = [s]"
  by (induction s) auto

lemma split_at_append: "d \<notin> set s \<Longrightarrow> split_at d (s @ d # t) = s # split_at d t"
  by (induction s) auto

lemma split_at_dotted:
  "\<forall>seg \<in> set segs. d \<notin> set seg \<Longrightarrow> segs \<noteq> [] \<Longrightarrow>
   split_at d (concat (map (\<lambda>x. d # x) segs)) = [] # segs"
proof (induction segs)
  case Nil
  then show ?case by simp
next
  case (Cons s segs)
  show ?case
  proof (cases "segs = []")
    case True
    with Cons.prems show ?thesis by (simp add: split_at_nodot)
  next
    case False
    then obtain s' segs' where segs: "segs = s' # segs'" by (cases segs) auto
    have ih: "split_at d (concat (map (\<lambda>x. d # x) segs)) = [] # segs"
      using Cons.IH Cons.prems False by simp
    have "split_at d (s @ concat (map (\<lambda>x. d # x) segs)) = s # segs"
      using Cons.prems ih by (simp add: segs split_at_append)
    then show ?thesis by simp
  qed
qed

lemma dot_segments_rendering:
  assumes "\<forall>seg \<in> set segs. CHR ''.'' \<notin> set seg \<and> seg \<noteq> []"
  shows "dot_segments (''$.'' @ concat (map (\<lambda>x. ''.'' @ x) segs)) = Some segs"
proof (cases "segs = []")
  case True
  then show ?thesis by (simp add: dot_segments_def)
next
  case False
  have nodot: "\<forall>seg \<in> set segs. CHR ''.'' \<notin> set seg" using assms by blast
  have "split_at (CHR ''.'') (concat (map (\<lambda>x. CHR ''.'' # x) segs)) = [] # segs"
    using split_at_dotted [OF nodot False] .
  moreover have "filter (\<lambda>x. x \<noteq> []) segs = segs"
    using assms by (simp add: filter_id_conv)
  ultimately show ?thesis by (simp add: dot_segments_def)
qed

lemma toJSONPath_eq:
  "toJSONPath p = ''$.'' @ concat (map (\<lambda>seg. ''.'' @ seg) (Fields p))"
  unfolding toJSONPath_def by (rule foldl_dots)

lemma Fields_Status_Audio: "Fields ''Status Audio'' = [''Status'', ''Audio'']"
  by (simp add: Fields.simps asciiSpace_def)


text \<open>
  C5 (as the code has it). The dot-path rendering of a path with segments
  \<open>seg1, seg2, ...\<close> is \<open>$.\<close> followed by a dot and the segment, for each segment in
  order: \<open>$..seg1.seg2...\<close>, with two dots after the root, and \<open>$.\<close> for a path with
  no segment.
\<close>

theorem toJSONPath_rendering:
  "toJSONPath p = ''$.'' @ concat (map (\<lambda>seg. ''.'' @ seg) (Fields p))"
  by (rule toJSONPath_eq)

theorem toJSONPath_rendering_witness:
  "toJSONPath ''Status Audio'' = ''$..Status.Audio''"
  using toJSONPath_rendering [of "''Status Audio''"] by (simp add: Fields_Status_Audio)


text \<open>
  C5 as the specification words it (\<open>$\<close> followed by one dot before each segment) does
  not hold: for the path \<open>Status Audio\<close> the code renders \<open>$..Status.Audio\<close>, not
  \<open>$.Status.Audio\<close>.
\<close>

theorem toJSONPath_one_dot_counterexample:
  "toJSONPath ''Status Audio'' = ''$..Status.Audio'' \<and>
   spec_dot_path (Fields ''Status Audio'') = ''$.Status.Audio'' \<and>
   toJSONPath ''Status Audio'' \<noteq> spec_dot_path (Fields ''Status Audio'')"
  by (simp add: toJSONPath_eq spec_dot_path_def Fields_Status_Audio)

text \<open>
  C6. The three renderings of a path hold exactly its segments, in the same order and
  number: the subscribe query and the get parameters hold the list of segments itself, and
  the dot path, read back at its dots, gives the same list. A path is valid for the dot
  path when no segment contains the separator \<open>.\<close> itself.
\<close>

theorem renderings_preserve_segments:
  "segments_at ''Query'' (toSubQuery p) = Some (Fields p) \<and>
   segments_at ''Path'' (toGetParams p) = Some (Fields p) \<and>
   ((\<forall>seg \<in> set (Fields p). CHR ''.'' \<notin> set seg) \<longrightarrow>
      dot_segments (toJSONPath p) = Some (Fields p))"
proof (intro conjI impI)
  show "segments_at ''Query'' (toSubQuery p) = Some (Fields p)"
    by (simp add: segments_at_def toSubQuery_def strings_of_JStr)
  show "segments_at ''Path'' (toGetParams p) = Some (Fields p)"
    by (simp add: segments_at_def toGetParams_def strings_of_JStr)
next
  assume nodot: "\<forall>seg \<in> set (Fields p). CHR ''.'' \<notin> set seg"
  then have "\<forall>seg \<in> set (Fields p). CHR ''.'' \<notin> set seg \<and> seg \<noteq> []"
    using Fields_nonempty by blast
  then have "dot_segments (''$.'' @ concat (map (\<lambda>x. ''.'' @ x) (Fields p))) = Some (Fields p)"
    by (rule dot_segments_rendering)
  then show "dot_segments (toJSONPath p) = Some (Fields p)"
    by (simp only: toJSONPath_eq)
qed

theorem renderings_preserve_segments_witness:
  "segments_at ''Query'' (toSubQuery ''Status  Audio Volume'') = Some [''Status'', ''Audio'', ''Volume''] \<and>
   segments_at ''Path'' (toGetParams ''Status  Audio Volume'') = Some [''Status'', ''Audio'', ''Volume''] \<and>
   dot_segments (toJSONPath ''Status  Audio Volume'') = Some [''Status'', ''Audio'', ''Volume'']"
proof -
  have f: "Fields ''Status  Audio Volume'' = [''Status'', ''Audio'', ''Volume'']"
    by (simp add: Fields.simps asciiSpace_def)
  have "\<forall>seg \<in> set (Fields ''Status  Audio Volume''). CHR ''.'' \<notin> set seg"
    by (simp add: f)
  with renderings_preserve_segments [of "''Status  Audio Volume''"] show ?thesis
    by (simp add: f)
qed

text \<open>
  A segment that contains a dot is rendered as it is, so the dot path of the one-segment
  path \<open>a.b\<close> reads back as two segments.
\<close>

lemma dot_segments_dotted_example:
  "Fields ''a.b'' = [''a.b''] \<and> dot_segments (toJSONPath ''a.b'') = Some [''a'', ''b'']"
  by (simp add: toJSONPath_eq Fields.simps asciiSpace_def dot_segments_def)

section \<open>Properties of the credential encoding\<close>

lemma sextet_less: "sextet val k < 64"
proof -
  have "sextet val k = take_bit 6 (drop_bit k val)"
    by (simp add: sextet_def take_bit_eq_mask mask_eq_exp_minus_1)
  also have "\<dots> < 2 ^ 6" by (rule take_bit_nat_less_exp)
  finally show ?thesis by simp
qed

lemma replaceByte_alphabet:
  assumes "i < 64"
  shows "replaceByte (encodeStd ! i) = [encodeURL ! i]"
proof -
  have tab: "map replaceByte encodeStd = map (\<lambda>c. [c]) encodeURL"
    by (simp add: encodeStd_def encodeURL_def replaceByte_def)
  have len: "length encodeStd = 64" "length encodeURL = 64"
    by (simp_all add: encodeStd_def encodeURL_def)
  have "replaceByte (encodeStd ! i) = map replaceByte encodeStd ! i"
    using assms len by simp
  also have "\<dots> = map (\<lambda>c. [c]) encodeURL ! i" by (simp only: tab)
  also have "\<dots> = [encodeURL ! i]" using assms len by simp
  finally show ?thesis .
qed

lemma Replace_append: "Replace (xs @ ys) = Replace xs @ Replace ys"
  by (simp add: Replace_def)

lemma Replace_Cons: "Replace (x # xs) = replaceByte x @ Replace xs"
  by (simp add: Replace_def)

lemma Replace_Nil: "Replace [] = []"
  by (simp add: Replace_def)

lemma replaceByte_pad: "replaceByte (CHR ''='') = []"
  by (simp add: replaceByte_def)

lemma Replace_StdEncoding: "Replace (StdEncoding src) = RawURLEncoding src"
  unfolding StdEncoding_def RawURLEncoding_def
proof (induction encodeStd "Some (CHR ''='')" src rule: Encode.induct)
  case (1 a b c src)
  then show ?case
    by (simp add: Let_def Replace_Cons Replace_append replaceByte_alphabet sextet_less)
next
  case (2 a b)
  show ?case
    by (simp add: Let_def Replace_Cons Replace_Nil replaceByte_alphabet sextet_less replaceByte_pad)
next
  case (3 a)
  show ?case
    by (simp add: Let_def Replace_Cons Replace_Nil replaceByte_alphabet sextet_less replaceByte_pad)
next
  case 4
  show ?case by (simp add: Replace_Nil)
qed

lemma replaceByte_safe:
  "CHR ''+'' \<notin> set (replaceByte c) \<and> CHR ''/'' \<notin> set (replaceByte c) \<and> CHR ''='' \<notin> set (replaceByte c)"
  by (simp add: replaceByte_def)

lemma Replace_safe:
  "CHR ''+'' \<notin> set (Replace s) \<and> CHR ''/'' \<notin> set (Replace s) \<and> CHR ''='' \<notin> set (Replace s)"
  using replaceByte_safe by (induction s) (auto simp: Replace_Nil Replace_Cons)

lemma credPrefix_safe:
  "CHR ''+'' \<notin> set credPrefix \<and> CHR ''/'' \<notin> set credPrefix \<and> CHR ''='' \<notin> set credPrefix"
  by (simp add: credPrefix_def)

lemma RawURL_bob: "RawURLEncoding ''bob:secret'' = ''Ym9iOnNlY3JldA''"
  by (simp add: RawURLEncoding_def encodeURL_def sextet_def)


text \<open>
  C7. \<open>encCreds\<close> is a function of user and password. It fails, and then with
  \<open>ErrInvalidCredentials\<close>, exactly when the user or the password is empty; otherwise its
  result is the fixed prefix followed by the unpadded base64url encoding of
  \<open>user:password\<close>, and no result contains \<open>+\<close>, \<open>/\<close> or \<open>=\<close>.
\<close>

theorem encCreds_base64url:
  "(encCreds user password = Inl ErrInvalidCredentials \<longleftrightarrow> user = '''' \<or> password = '''') \<and>
   ((\<exists>err. encCreds user password = Inl err) \<longleftrightarrow> user = '''' \<or> password = '''') \<and>
   (user \<noteq> '''' \<and> password \<noteq> '''' \<longrightarrow>
      encCreds user password = Inr (credPrefix @ RawURLEncoding (user @ '':'' @ password))) \<and>
   (\<forall>out. encCreds user password = Inr out \<longrightarrow>
      CHR ''+'' \<notin> set out \<and> CHR ''/'' \<notin> set out \<and> CHR ''='' \<notin> set out)"
proof (intro conjI)
  show "encCreds user password = Inl ErrInvalidCredentials \<longleftrightarrow> user = '''' \<or> password = ''''"
    by (simp add: encCreds_def)
  show "(\<exists>err. encCreds user password = Inl err) \<longleftrightarrow> user = '''' \<or> password = ''''"
    by (simp add: encCreds_def)
  show "user \<noteq> '''' \<and> password \<noteq> '''' \<longrightarrow>
      encCreds user password = Inr (credPrefix @ RawURLEncoding (user @ '':'' @ password))"
    by (simp add: encCreds_def Replace_StdEncoding)
  show "\<forall>out. encCreds user password = Inr out \<longrightarrow>
      CHR ''+'' \<notin> set out \<and> CHR ''/'' \<notin> set out \<and> CHR ''='' \<notin> set out"
    using Replace_safe [of "StdEncoding (user @ '':'' @ password)"] credPrefix_safe
    by (auto simp: encCreds_def)
qed

theorem encCreds_base64url_witness:
  "encCreds ''bob'' ''secret'' = Inr ''auth-Ym9iOnNlY3JldA'' \<and>
   encCreds '''' ''x'' = Inl ErrInvalidCredentials \<and>
   encCreds ''x'' '''' = Inl ErrInvalidCredentials"
  using encCreds_base64url [of "''bob''" "''secret''"]
    encCreds_base64url [of "''''" "''x''"] encCreds_base64url [of "''x''" "''''"]
  by (simp add: RawURL_bob credPrefix_def)

section \<open>Properties of sending commands\<close>

lemma sendCommand_callbacks: "callbacks (snd (sendCommand L r c command params)) = callbacks c"
  by (simp add: sendCommand_def Let_def split: option.splits)

lemma sendCommand_seq:
  "client c \<noteq> None \<Longrightarrow> seq (snd (sendCommand L r c command params)) = incr (seq c)"
  by (auto simp: sendCommand_def Let_def split: option.splits)

lemma sendCommand_client:
  "client c \<noteq> None \<Longrightarrow> client (snd (sendCommand L r c command params)) \<noteq> None"
  by (auto simp: sendCommand_def Let_def split: option.splits)

lemma sendCommand_sent:
  assumes "snd (fst (sendCommand L r c command params)) = None"
  shows "\<exists>rpc data. client c = Some rpc \<and> json_Marshal L params = Some data \<and>
           client (snd (sendCommand L r c command params)) =
             Some (rpc\<lparr>outbound := outbound rpc @ [(incr (seq c), command, data)]\<rparr>)"
  using assms
  by (auto simp: sendCommand_def WriteMessage_def Let_def split: option.splits)

lemma ConnectContext_failed:
  "client c = None \<Longrightarrow> fst (ConnectContext dial bodyClose c) \<noteq> None \<Longrightarrow>
     client (snd (ConnectContext dial bodyClose c)) = None"
  by (auto simp: ConnectContext_def Let_def split: sum.splits option.splits)

lemma incr_min: "x \<le> 2 ^ 53 \<Longrightarrow> incr x = min (x + 1) (2 ^ 53)"
  by (simp add: incr_def min_def)

lemma incr_le: "x \<le> 2 ^ 53 \<Longrightarrow> incr x \<le> 2 ^ 53"
  by (simp add: incr_def)

lemma sendCommands_length: "length (fst (sendCommands L c calls)) = length calls"
  by (induction calls arbitrary: c) (auto simp: Let_def)

lemma sendCommands_nth:
  assumes "client c \<noteq> None" and "seq c \<le> 2 ^ 53" and "i < length calls"
  shows "fst (sendCommands L c calls) ! i = min (seq c + Suc i) (2 ^ 53)"
  using assms
proof (induction calls arbitrary: c i)
  case Nil
  then show ?case by simp
next
  case (Cons call calls)
  obtain r command params where call: "call = (r, command, params)"
    by (cases call) auto
  let ?c' = "snd (sendCommand L r c command params)"
  have seq': "seq ?c' = min (seq c + 1) (2 ^ 53)"
    using Cons.prems(1,2) by (simp add: sendCommand_seq incr_min)
  have cl': "client ?c' \<noteq> None"
    using Cons.prems(1) by (rule sendCommand_client)
  have le': "seq ?c' \<le> 2 ^ 53" using seq' by simp
  show ?case
  proof (cases i)
    case 0
    then show ?thesis using seq' by (simp add: call Let_def)
  next
    case (Suc j)
    then have "j < length calls" using Cons.prems(3) by simp
    from Cons.IH [OF cl' le' this]
    have "fst (sendCommands L ?c' calls) ! j = min (seq ?c' + Suc j) (2 ^ 53)" .
    then show ?thesis using Suc seq' by (simp add: call Let_def min_def)
  qed
qed

lemma connected_Client_alive:
  "client connected_Client \<noteq> None" "seq connected_Client = 0"
  by (simp_all add: connected_Client_def zero_Client_def)

text \<open>
  C3 (as the code has it). On a connected session the ids given to successive invocations
  are \<open>seq + 1, seq + 2, ...\<close>: strictly increasing in issuance order and pairwise
  distinct, as long as the counter does not pass \<open>2^53\<close>.
\<close>

theorem sequence_ids_increasing:
  assumes "client c \<noteq> None" and "seq c + length calls \<le> 2 ^ 53"
  shows "sorted_wrt (<) (fst (sendCommands L c calls)) \<and>
         distinct (fst (sendCommands L c calls)) \<and>
         (\<forall>i < length calls. fst (sendCommands L c calls) ! i = seq c + Suc i)"
proof -
  let ?ids = "fst (sendCommands L c calls)"
  have le: "seq c \<le> 2 ^ 53" using assms(2) by simp
  have nth: "?ids ! i = seq c + Suc i" if "i < length calls" for i
  proof -
    have "?ids ! i = min (seq c + Suc i) (2 ^ 53)"
      using assms(1) le that by (rule sendCommands_nth)
    moreover have "seq c + Suc i \<le> 2 ^ 53" using that assms(2) by simp
    ultimately show ?thesis by simp
  qed
  have sorted: "sorted_wrt (<) ?ids"
    unfolding sorted_wrt_iff_nth_less
    by (simp add: sendCommands_length nth)
  have "distinct ?ids"
    unfolding distinct_conv_nth
    by (simp add: sendCommands_length nth)
  with sorted nth show ?thesis by simp
qed

theorem sequence_ids_increasing_witness:
  "fst (sendCommands stub_libs connected_Client
      [(Inr (JObj [(''Id'', JNum 1)]), feedbackSusbscribe, toSubQuery ''Status''),
       (Inl ErrInvalidMsg, getCommand, toGetParams ''Status Audio''),
       (Inr (JNum 50), getCommand, toGetParams ''Status Audio Volume'')]) = [1, 2, 3]"
proof -
  define calls :: "((error + json) \<times> Command \<times> json) list"
    where "calls = [(Inr (JObj [(''Id'', JNum 1)]), feedbackSusbscribe, toSubQuery ''Status''),
       (Inl ErrInvalidMsg, getCommand, toGetParams ''Status Audio''),
       (Inr (JNum 50), getCommand, toGetParams ''Status Audio Volume'')]"
  define ids where "ids = fst (sendCommands stub_libs connected_Client calls)"
  have lc: "length calls = 3" by (simp add: calls_def)
  have h: "seq connected_Client + length calls \<le> 2 ^ 53"
    by (simp add: connected_Client_alive lc)
  from sequence_ids_increasing [OF connected_Client_alive(1) h, of stub_libs]
  have nth: "\<forall>i < length calls. ids ! i = seq connected_Client + Suc i"
    unfolding ids_def by blast
  have len: "length ids = 3" by (simp add: ids_def sendCommands_length lc)
  from len obtain a b c where abc: "ids = [a, b, c]"
    by (auto simp: numeral_3_eq_3 length_Suc_conv)
  have "ids ! 0 = 1" "ids ! 1 = 2" "ids ! 2 = 3"
    using nth by (simp_all add: connected_Client_alive lc)
  then have "ids = [1, 2, 3]"
    by (simp add: abc)
  then show ?thesis unfolding ids_def calls_def .
qed

text \<open>
  C3 as stated (for every session, ids are never reused) does not hold: the counter is a
  \<open>float64\<close>, and on a fresh session the invocations number \<open>2^53\<close> and \<open>2^53 + 1\<close> are
  both given the id \<open>2^53\<close>.
\<close>

theorem sequence_ids_reuse_counterexample:
  "\<not> distinct (fst (sendCommands stub_libs connected_Client
        (replicate (2 ^ 53 + 1) (Inr (JNum 50), getCommand, toGetParams ''Status Audio Volume''))))"
proof -
  define calls :: "((error + json) \<times> Command \<times> json) list"
    where "calls = replicate (2 ^ 53 + 1) (Inr (JNum 50), getCommand, toGetParams ''Status Audio Volume'')"
  let ?ids = "fst (sendCommands stub_libs connected_Client calls)"
  have len: "length calls = 2 ^ 53 + 1" by (simp add: calls_def)
  have le: "seq connected_Client \<le> 2 ^ 53" by (simp add: connected_Client_alive)
  have i: "(2 ^ 53 - 1 :: nat) < length calls" and j: "(2 ^ 53 :: nat) < length calls"
    by (simp_all add: len)
  have "?ids ! (2 ^ 53 - 1) = 2 ^ 53"
    using sendCommands_nth [OF connected_Client_alive(1) le i, of stub_libs]
    by (simp add: connected_Client_alive)
  moreover have "?ids ! (2 ^ 53) = 2 ^ 53"
    using sendCommands_nth [OF connected_Client_alive(1) le j, of stub_libs]
    by (simp add: connected_Client_alive)
  ultimately have "?ids ! (2 ^ 53 - 1) = ?ids ! (2 ^ 53)" by simp
  moreover have "(2 ^ 53 - 1 :: nat) < length ?ids" "(2 ^ 53 :: nat) < length ?ids"
    "(2 ^ 53 - 1 :: nat) \<noteq> 2 ^ 53"
    by (simp_all add: sendCommands_length len)
  ultimately have "\<not> distinct ?ids"
    unfolding distinct_conv_nth by blast
  then show ?thesis unfolding calls_def .
qed

text \<open>
  C9. On a client whose \<open>client\<close> field is nil, \<open>Close\<close> panics, where \<open>sendCommand\<close> and
  \<open>Run\<close> return \<open>ErrNotConnected\<close>; the state is reached by a client that never connected
  and by one whose connection attempt failed.
\<close>

theorem Close_nil_client:
  "client c = None \<Longrightarrow>
     Close c = Panics \<and>
     fst (sendCommand L r c command params) = (None, Some ErrNotConnected) \<and>
     Run L orders c = Returns (Some ErrNotConnected, [], c) \<and>
     (fst (ConnectContext dial bodyClose c) \<noteq> None \<longrightarrow>
        Close (snd (ConnectContext dial bodyClose c)) = Panics)"
  by (simp add: Close_def sendCommand_def Run_def ConnectContext_failed)

theorem Close_nil_client_witness:
  "client zero_Client = None \<and>
   Close zero_Client = Panics \<and>
   fst (sendCommand stub_libs (Inr JNull) zero_Client getCommand JNull) = (None, Some ErrNotConnected) \<and>
   Run stub_libs (\<lambda>n. []) zero_Client = Returns (Some ErrNotConnected, [], zero_Client) \<and>
   fst (ConnectContext (\<lambda>header. Inl (External ''dial'')) None zero_Client) \<noteq> None \<and>
   Close (snd (ConnectContext (\<lambda>header. Inl (External ''dial'')) None zero_Client)) = Panics"
proof -
  have h: "client zero_Client = None" by (simp add: zero_Client_def)
  have f: "fst (ConnectContext (\<lambda>header. Inl (External ''dial'')) None zero_Client) \<noteq> None"
    by (simp add: ConnectContext_def Let_def zero_Client_def encCreds_def split: sum.splits)
  from Close_nil_client [OF h, of stub_libs "Inr JNull" getCommand JNull "\<lambda>n. []"
      "\<lambda>header. Inl (External ''dial'')" None] h f
  show ?thesis by simp
qed

section \<open>Properties of the subscription registry\<close>

lemma cancelFunc_registry:
  "callbacks (snd (cancelFunc L r c path)) = (callbacks c)(path := None)"
  by (simp add: cancelFunc_def Let_def sendCommand_callbacks)

lemma ConnectContext_registry:
  "callbacks (snd (ConnectContext dial bodyClose c)) = Map.empty"
  by (auto simp: ConnectContext_def Let_def split: sum.splits option.splits)

lemma Subscribe_ok_example:
  "Subscribe stub_libs (Inr (JObj [(''Id'', JNum 1)])) connected_Client ''Status Audio'' (Some ''onAudio'')
     = ((Some ''Status Audio'', None),
        connected_Client\<lparr>client := Some (stub_rpc\<lparr>outbound := [(1, feedbackSusbscribe, ''{}'')]\<rparr>),
                         seq := 1, callbacks := [''Status Audio'' \<mapsto> Some ''onAudio'']\<rparr>)"
  by (simp add: Subscribe_def sendCommand_def WriteMessage_def Let_def incr_def
      connected_Client_def zero_Client_def stub_rpc_def stub_libs_def)

lemma Subscribe_err_example:
  "Subscribe stub_libs (Inl (JSONRPCError 1 JNull ''no such path'')) connected_Client ''Status Audio'' (Some ''onAudio'')
     = ((None, Some (JSONRPCError 1 JNull ''no such path'')),
        connected_Client\<lparr>client := Some (stub_rpc\<lparr>outbound := [(1, feedbackSusbscribe, ''{}'')]\<rparr>),
                         seq := 1\<rparr>)"
  by (simp add: Subscribe_def sendCommand_def WriteMessage_def Let_def incr_def
      connected_Client_def zero_Client_def stub_rpc_def stub_libs_def)

lemma Subscribe_again_example:
  "Subscribe stub_libs (Inr (JObj [(''Id'', JNum 2)]))
     (connected_Client\<lparr>client := Some (stub_rpc\<lparr>outbound := [(1, feedbackSusbscribe, ''{}'')]\<rparr>),
                       seq := 1, callbacks := [''Status Audio'' \<mapsto> Some ''onAudio'']\<rparr>)
     ''Status Audio'' (Some ''onAudio2'')
     = ((Some ''Status Audio'', None),
        connected_Client\<lparr>client := Some (stub_rpc\<lparr>outbound :=
                             [(1, feedbackSusbscribe, ''{}''), (2, feedbackSusbscribe, ''{}'')]\<rparr>),
                         seq := 2, callbacks := [''Status Audio'' \<mapsto> Some ''onAudio2'']\<rparr>)"
  by (simp add: Subscribe_def sendCommand_def WriteMessage_def Let_def incr_def
      connected_Client_def zero_Client_def stub_rpc_def stub_libs_def)

text \<open>
  C4. \<open>Subscribe\<close> sends the subscribe command with the path's query. When the command
  succeeds, the request is on the wire and the registry maps the path to the callback;
  when it fails, \<open>Subscribe\<close> returns the command's error and the registry is unchanged.
\<close>

theorem Subscribe_registry:
  "(snd (fst (Subscribe L r c path callback)) = None \<longrightarrow>
      (\<exists>rpc data. client c = Some rpc \<and> json_Marshal L (toSubQuery path) = Some data \<and>
         client (snd (Subscribe L r c path callback)) =
           Some (rpc\<lparr>outbound := outbound rpc @ [(incr (seq c), feedbackSusbscribe, data)]\<rparr>)) \<and>
      snd (fst (sendCommand L r c feedbackSusbscribe (toSubQuery path))) = None \<and>
      fst (fst (Subscribe L r c path callback)) = Some path \<and>
      callbacks (snd (Subscribe L r c path callback)) = (callbacks c)(path \<mapsto> callback)) \<and>
   (\<forall>err. snd (fst (Subscribe L r c path callback)) = Some err \<longrightarrow>
      snd (fst (sendCommand L r c feedbackSusbscribe (toSubQuery path))) = Some err \<and>
      fst (fst (Subscribe L r c path callback)) = None \<and>
      callbacks (snd (Subscribe L r c path callback)) = callbacks c)"
proof -
  let ?res = "sendCommand L r c feedbackSusbscribe (toSubQuery path)"
  obtain v e c' where res: "?res = ((v, e), c')" by (metis surj_pair)
  have cb: "callbacks c' = callbacks c"
    using sendCommand_callbacks [of L r c feedbackSusbscribe "toSubQuery path"] res by simp
  show ?thesis
  proof (cases e)
    case None
    then have sub: "Subscribe L r c path callback =
        ((Some path, None), c'\<lparr>callbacks := (callbacks c')(path \<mapsto> callback)\<rparr>)"
      using res by (simp add: Subscribe_def)
    have "snd (fst ?res) = None" using res None by simp
    from sendCommand_sent [OF this] res
    have "\<exists>rpc data. client c = Some rpc \<and> json_Marshal L (toSubQuery path) = Some data \<and>
        client c' = Some (rpc\<lparr>outbound := outbound rpc @ [(incr (seq c), feedbackSusbscribe, data)]\<rparr>)"
      by simp
    then show ?thesis using sub cb res None by simp
  next
    case (Some err)
    then have "Subscribe L r c path callback = ((None, Some err), c')"
      using res by (simp add: Subscribe_def)
    then show ?thesis using cb res Some by simp
  qed
qed

theorem Subscribe_registry_witness:
  "callbacks (snd (Subscribe stub_libs (Inr (JObj [(''Id'', JNum 1)])) connected_Client
       ''Status Audio'' (Some ''onAudio''))) = [''Status Audio'' \<mapsto> Some ''onAudio''] \<and>
   callbacks (snd (Subscribe stub_libs (Inl (JSONRPCError 1 JNull ''no such path'')) connected_Client
       ''Status Audio'' (Some ''onAudio''))) = Map.empty"
proof -
  let ?ok = "Subscribe stub_libs (Inr (JObj [(''Id'', JNum 1)])) connected_Client
       ''Status Audio'' (Some ''onAudio'')"
  let ?er = "Subscribe stub_libs (Inl (JSONRPCError 1 JNull ''no such path'')) connected_Client
       ''Status Audio'' (Some ''onAudio'')"
  have none: "callbacks connected_Client = Map.empty"
    by (simp add: connected_Client_def zero_Client_def)
  have ok: "snd (fst ?ok) = None"
    by (simp add: Subscribe_ok_example)
  have er: "snd (fst ?er) = Some (JSONRPCError 1 JNull ''no such path'')"
    by (simp add: Subscribe_err_example)
  have "callbacks (snd ?ok) = (callbacks connected_Client)(''Status Audio'' \<mapsto> Some ''onAudio'')"
    using Subscribe_registry [of stub_libs "Inr (JObj [(''Id'', JNum 1)])" connected_Client
      "''Status Audio''" "Some ''onAudio''"] ok by blast
  moreover have "callbacks (snd ?er) = callbacks connected_Client"
    using Subscribe_registry [of stub_libs "Inl (JSONRPCError 1 JNull ''no such path'')"
      connected_Client "''Status Audio''" "Some ''onAudio''"] er by blast
  ultimately show ?thesis by (simp only: none)
qed

lemma ranged_Nil: "ranged m [] = []"
  by (simp add: ranged_def map_filter_simps)

lemma ranged_Cons:
  "ranged m (k # ks) = (case m k of None \<Rightarrow> ranged m ks | Some v \<Rightarrow> (k, v) # ranged m ks)"
  by (simp add: ranged_def map_filter_simps split: option.splits)

lemma ranged_keys: "map fst (ranged m order) = filter (\<lambda>k. m k \<noteq> None) order"
  by (induction order) (auto simp: ranged_Nil ranged_Cons split: option.splits)

lemma ranged_set: "set (ranged m order) = {(k, v). k \<in> set order \<and> m k = Some v}"
  by (induction order) (auto simp: ranged_Nil ranged_Cons split: option.splits)

lemma ranged_entries:
  assumes "range_order m order"
  shows "set (ranged m order) = {(k, v). m k = Some v}" and "distinct (map fst (ranged m order))"
  using assms by (auto simp: ranged_set ranged_keys range_order_def)

lemma ranged_filter_key:
  assumes "distinct order"
  shows "filter (\<lambda>kv. fst kv = p) (ranged m order) =
           (case m p of None \<Rightarrow> [] | Some v \<Rightarrow> if p \<in> set order then [(p, v)] else [])"
  using assms
proof (induction order)
  case Nil
  then show ?case by (simp add: ranged_Nil split: option.splits)
next
  case (Cons k ks)
  have notin: "p \<notin> set ks \<Longrightarrow> filter (\<lambda>kv. fst kv = p) (ranged m ks) = []"
    by (auto simp: filter_empty_conv ranged_set)
  show ?case
  proof (cases "k = p")
    case True
    with Cons.prems have "p \<notin> set ks" by simp
    with True notin show ?thesis by (simp add: ranged_Cons split: option.splits)
  next
    case False
    with Cons show ?thesis by (auto simp: ranged_Cons split: option.splits)
  qed
qed

text \<open>
  C10. The registry holds at most one callback per path. After two successful calls of
  \<open>Subscribe\<close> with the same path the registry maps the path to the second callback, its
  other entries and its set of paths are those after the first call, and a \<open>range\<close> over it
  meets exactly one entry for the path. The registry is a Go map, so whatever operation
  made it (\<open>Subscribe\<close>, the cancel function, \<open>ConnectContext\<close>), a \<open>range\<close> meets at most one
  entry for any path.
\<close>

theorem Subscribe_replaces:
  assumes "Subscribe L r1 c path cb1 = ((h1, None), c1)"
    and "Subscribe L r2 c1 path cb2 = ((h2, None), c2)"
  shows "callbacks c1 path = Some cb1 \<and>
         callbacks c2 path = Some cb2 \<and>
         (\<forall>p. p \<noteq> path \<longrightarrow> callbacks c2 p = callbacks c1 p) \<and>
         dom (callbacks c2) = dom (callbacks c1) \<and>
         (\<forall>order. range_order (callbacks c2) order \<longrightarrow>
            filter (\<lambda>kv. fst kv = path) (ranged (callbacks c2) order) = [(path, cb2)]) \<and>
         (\<forall>order p. range_order (callbacks c2) order \<longrightarrow>
            length (filter (\<lambda>kv. fst kv = p) (ranged (callbacks c2) order)) \<le> 1)"
proof -
  have c1: "callbacks c1 = (callbacks c)(path \<mapsto> cb1)"
    using assms(1) sendCommand_callbacks [of L r1 c feedbackSusbscribe "toSubQuery path"]
    by (auto simp: Subscribe_def split: prod.splits option.splits)
  have c2: "callbacks c2 = (callbacks c1)(path \<mapsto> cb2)"
    using assms(2) sendCommand_callbacks [of L r2 c1 feedbackSusbscribe "toSubQuery path"]
    by (auto simp: Subscribe_def split: prod.splits option.splits)
  have one: "filter (\<lambda>kv. fst kv = path) (ranged (callbacks c2) order) = [(path, cb2)]"
    if "range_order (callbacks c2) order" for order
  proof -
    from that have "distinct order" "path \<in> set order"
      by (auto simp: range_order_def c2)
    then show ?thesis by (simp add: ranged_filter_key c2)
  qed
  have most: "length (filter (\<lambda>kv. fst kv = p) (ranged (callbacks c2) order)) \<le> 1"
    if "range_order (callbacks c2) order" for order p
  proof -
    from that have "distinct order" by (simp add: range_order_def)
    then show ?thesis by (simp add: ranged_filter_key split: option.splits)
  qed
  show ?thesis
    using one most by (auto simp: c1 c2)
qed

theorem Subscribe_replaces_witness:
  "callbacks (snd (Subscribe stub_libs (Inr (JObj [(''Id'', JNum 2)]))
       (snd (Subscribe stub_libs (Inr (JObj [(''Id'', JNum 1)])) connected_Client
              ''Status Audio'' (Some ''onAudio'')))
       ''Status Audio'' (Some ''onAudio2''))) ''Status Audio'' = Some (Some ''onAudio2'') \<and>
   filter (\<lambda>kv. fst kv = ''Status Audio'')
     (ranged (callbacks (snd (Subscribe stub_libs (Inr (JObj [(''Id'', JNum 2)]))
       (snd (Subscribe stub_libs (Inr (JObj [(''Id'', JNum 1)])) connected_Client
              ''Status Audio'' (Some ''onAudio'')))
       ''Status Audio'' (Some ''onAudio2'')))) [''Status Audio''])
     = [(''Status Audio'', Some ''onAudio2'')]"
proof -
  let ?c1 = "connected_Client\<lparr>client := Some (stub_rpc\<lparr>outbound := [(1, feedbackSusbscribe, ''{}'')]\<rparr>),
                       seq := 1, callbacks := [''Status Audio'' \<mapsto> Some ''onAudio'']\<rparr>"
  let ?c2 = "connected_Client\<lparr>client := Some (stub_rpc\<lparr>outbound :=
                             [(1, feedbackSusbscribe, ''{}''), (2, feedbackSusbscribe, ''{}'')]\<rparr>),
                         seq := 2, callbacks := [''Status Audio'' \<mapsto> Some ''onAudio2'']\<rparr>"
  have s1: "snd (Subscribe stub_libs (Inr (JObj [(''Id'', JNum 1)])) connected_Client
              ''Status Audio'' (Some ''onAudio'')) = ?c1"
    by (simp only: Subscribe_ok_example snd_conv)
  have s2: "snd (Subscribe stub_libs (Inr (JObj [(''Id'', JNum 2)])) ?c1
              ''Status Audio'' (Some ''onAudio2'')) = ?c2"
    by (simp only: Subscribe_again_example snd_conv)
  have ro: "range_order (callbacks ?c2) [''Status Audio'']"
    by (simp add: range_order_def)
  from Subscribe_replaces [OF Subscribe_ok_example Subscribe_again_example]
  have "callbacks ?c2 ''Status Audio'' = Some (Some ''onAudio2'')"
    and "\<forall>order. range_order (callbacks ?c2) order \<longrightarrow>
            filter (\<lambda>kv. fst kv = ''Status Audio'') (ranged (callbacks ?c2) order)
              = [(''Status Audio'', Some ''onAudio2'')]"
    by blast+
  with ro have "callbacks ?c2 ''Status Audio'' = Some (Some ''onAudio2'') \<and>
     filter (\<lambda>kv. fst kv = ''Status Audio'') (ranged (callbacks ?c2) [''Status Audio''])
              = [(''Status Audio'', Some ''onAudio2'')]"
    by blast
  then show ?thesis by (simp only: s1 s2)
qed

section \<open>Properties of the receive loop\<close>

lemma chanResponse_missing:
  "ID msg = IDFloat k \<Longrightarrow> responseChans c k = None \<Longrightarrow>
     chanResponse c msg res = (Some ErrMissingChannel, c)"
  by (simp add: chanResponse_def)

lemma runLoop_switch_missing:
  assumes "reply_frame L msg" and "ID msg = IDFloat k" and "responseChans c k = None"
  shows "runLoop_switch L order c msg = Returns (Some ErrMissingChannel, [], c)"
  using assms
  by (auto simp: runLoop_switch_def reply_frame_def chanResponse_missing Let_def
           split: MsgType.splits option.splits)

lemma runLoop_missing:
  assumes "client c = Some rpc" and "inbound rpc = Inr msg # rest"
    and "reply_frame L msg" and "ID msg = IDFloat k" and "responseChans c k = None"
  shows "runLoop L order c =
           Returns (Some ErrMissingChannel, [], c\<lparr>client := Some (rpc\<lparr>inbound := rest\<rparr>)\<rparr>)"
proof -
  let ?c1 = "c\<lparr>client := Some (rpc\<lparr>inbound := rest\<rparr>)\<rparr>"
  have "responseChans ?c1 k = None" using assms(5) by simp
  from runLoop_switch_missing [OF assms(3,4) this]
  show ?thesis using assms(1,2) by (simp add: runLoop_def ReadMessage_def Let_def)
qed

lemma Run_missing:
  assumes "client c = Some rpc" and "inbound rpc = Inr msg # rest"
    and "reply_frame L msg" and "ID msg = IDFloat k" and "responseChans c k = None"
  shows "Run L orders c =
           Returns (Some ErrMissingChannel, [], c\<lparr>client := Some (rpc\<lparr>inbound := rest\<rparr>)\<rparr>)"
proof -
  have "Run L orders c = Run_for L orders c" using assms(1) by (simp add: Run_def)
  also have "\<dots> = Returns (Some ErrMissingChannel, [], c\<lparr>client := Some (rpc\<lparr>inbound := rest\<rparr>)\<rparr>)"
    by (subst Run_for.simps) (simp add: runLoop_missing [OF assms])
  finally show ?thesis .
qed

lemma late_reply_facts:
  "client late_reply_Client = Some (stub_rpc\<lparr>inbound := [Inr late_reply, Inr volume_event]\<rparr>)"
  "inbound (stub_rpc\<lparr>inbound := [Inr late_reply, Inr volume_event]\<rparr>) = Inr late_reply # [Inr volume_event]"
  "reply_frame stub_libs late_reply"
  "ID late_reply = IDFloat 7"
  "responseChans late_reply_Client 7 = None"
  by (simp_all add: late_reply_Client_def connected_Client_def zero_Client_def late_reply_def
      reply_frame_def stub_libs_def stub_parse_def)

text \<open>
  C2 (as the code has it). A reply frame whose id has no pending entry makes
  \<open>chanResponse\<close> return \<open>ErrMissingChannel\<close>. The receive loop does not panic: \<open>runLoop\<close>
  returns that error and \<open>Run\<close> returns it in turn, leaving the frames after it unread.
\<close>

theorem reply_without_pending_entry:
  assumes "client c = Some rpc" and "inbound rpc = Inr msg # rest"
    and "reply_frame L msg" and "ID msg = IDFloat k" and "responseChans c k = None"
  shows "chanResponse c msg res = (Some ErrMissingChannel, c) \<and>
         runLoop L order c =
           Returns (Some ErrMissingChannel, [], c\<lparr>client := Some (rpc\<lparr>inbound := rest\<rparr>)\<rparr>) \<and>
         Run L orders c =
           Returns (Some ErrMissingChannel, [], c\<lparr>client := Some (rpc\<lparr>inbound := rest\<rparr>)\<rparr>)"
  using chanResponse_missing [OF assms(4,5)] runLoop_missing [OF assms] Run_missing [OF assms]
  by simp

theorem reply_without_pending_entry_witness:
  "Run stub_libs (\<lambda>n. [''Status Audio'']) late_reply_Client =
     Returns (Some ErrMissingChannel, [],
       late_reply_Client\<lparr>client := Some (stub_rpc\<lparr>inbound := [Inr volume_event]\<rparr>)\<rparr>)"
  using reply_without_pending_entry [OF late_reply_facts, of "Inr JNull" "[]" "\<lambda>n. [''Status Audio'']"]
  by simp




lemma rangeCallbacks_callback:
  "rangeCallbacks L event kvs = Inr (Some r, v) \<Longrightarrow> v \<noteq> None \<and> r \<noteq> []"
  by (induction kvs) (auto simp: Let_def split: option.splits if_splits)

lemma rangeCallbacks_error:
  "rangeCallbacks L event kvs = Inl err \<Longrightarrow> err = Wrapped ''jpath'' (External ''jp.ParseString'')"
  by (induction kvs) (auto simp: Let_def split: option.splits if_splits)

lemma toJSONPath_examples:
  "toJSONPath ''Status Audio'' = ''$..Status.Audio''"
  "toJSONPath ''Status'' = ''$..Status''"
  by (simp_all add: toJSONPath_eq Fields.simps asciiSpace_def)

lemma volume_event_parsed:
  "Params volume_event = Some ''{Status:{Audio:{Volume:50}}}''"
  "oj_ParseString stub_libs ''{Status:{Audio:{Volume:50}}}'' =
     Some (JObj [(''Status'', JObj [(''Audio'', JObj [(''Volume'', JNum 50)])])])"
  by (simp_all add: volume_event_def stub_libs_def stub_parse_def)

lemma volume_event_queries:
  "query stub_libs (JObj [(''Status'', JObj [(''Audio'', JObj [(''Volume'', JNum 50)])])]) ''Status Audio''
     = Some [JObj [(''Volume'', JNum 50)]]"
  "query stub_libs (JObj [(''Status'', JObj [(''Audio'', JObj [(''Volume'', JNum 50)])])]) ''Status''
     = Some [JObj [(''Audio'', JObj [(''Volume'', JNum 50)])]]"
  by (simp_all add: query_def toJSONPath_examples stub_libs_def dot_segments_def)


lemma stub_query_Status_Audio:
  "jp_ParseString stub_libs (toJSONPath ''Status Audio'') = Some [''Status'', ''Audio'']"
  "jp_Get stub_libs = get_path"
  by (simp_all add: toJSONPath_examples stub_libs_def dot_segments_def)

text \<open>
  C2 as stated (the loop continues reading subsequent frames) does not hold: with a late
  reply followed by a notification, \<open>Run\<close> returns \<open>ErrMissingChannel\<close> with the
  notification still unread and no callback started, although one more turn of the loop
  would have dispatched it.
\<close>

theorem receive_loop_stops_counterexample:
  "Run stub_libs (\<lambda>n. [''Status Audio'']) late_reply_Client =
     Returns (Some ErrMissingChannel, [],
       late_reply_Client\<lparr>client := Some (stub_rpc\<lparr>inbound := [Inr volume_event]\<rparr>)\<rparr>) \<and>
   unread (late_reply_Client\<lparr>client := Some (stub_rpc\<lparr>inbound := [Inr volume_event]\<rparr>)\<rparr>) = 1 \<and>
   runLoop stub_libs [''Status Audio'']
       (late_reply_Client\<lparr>client := Some (stub_rpc\<lparr>inbound := [Inr volume_event]\<rparr>)\<rparr>) =
     Returns (None, [(''onAudio'', [JObj [(''Volume'', JNum 50)]])],
       late_reply_Client\<lparr>client := Some (stub_rpc\<lparr>inbound := []\<rparr>)\<rparr>)"
proof -
  have "runLoop stub_libs [''Status Audio'']
       (late_reply_Client\<lparr>client := Some (stub_rpc\<lparr>inbound := [Inr volume_event]\<rparr>)\<rparr>) =
     Returns (None, [(''onAudio'', [JObj [(''Volume'', JNum 50)]])],
       late_reply_Client\<lparr>client := Some (stub_rpc\<lparr>inbound := []\<rparr>)\<rparr>)"
    by (simp add: runLoop_def ReadMessage_def runLoop_switch_def runCallbacks_def Let_def
        volume_event_def late_reply_Client_def connected_Client_def zero_Client_def
        ranged_Cons ranged_Nil stub_query_Status_Audio volume_event_parsed(2))
  then show ?thesis
    using Run_missing [OF late_reply_facts, of "\<lambda>n. [''Status Audio'']"]
    by (simp add: unread_def)
qed



text \<open>
  C8. The code does not do what the claim says: a subscription whose callback is nil is
  passed over by the loop, so a payload that matches only such a subscription makes the
  dispatch fail with \<open>ErrMissingData\<close>, not \<open>ErrMissingCallback\<close>.
\<close>

theorem nil_callback_MissingData:
  "query stub_libs (JObj [(''Status'', JObj [(''Audio'', JObj [(''Volume'', JNum 50)])])]) ''Status Audio''
     = Some [JObj [(''Volume'', JNum 50)]] \<and>
   callbacks nil_callback_Client ''Status Audio'' = Some None \<and>
   runCallbacks stub_libs [''Status Audio''] nil_callback_Client volume_event
     = Returns (Some ErrMissingData, None)"
  using volume_event_queries(1)
  by (simp add: runCallbacks_def volume_event_parsed nil_callback_Client_def connected_Client_def
      zero_Client_def ranged_Cons ranged_Nil stub_query_Status_Audio)

text \<open>The branch returning \<open>ErrMissingCallback\<close> is never taken.\<close>

lemma runCallbacks_never_MissingCallback:
  "runCallbacks L order c msg \<noteq> Returns (Some ErrMissingCallback, started)"
proof
  assume "runCallbacks L order c msg = Returns (Some ErrMissingCallback, started)"
  then obtain event where
    "rangeCallbacks L event (ranged (callbacks c) order) = Inl ErrMissingCallback \<or>
     (\<exists>r. rangeCallbacks L event (ranged (callbacks c) order) = Inr (Some r, None))"
    by (auto simp: runCallbacks_def split: option.splits sum.splits prod.splits)
  then show False
    using rangeCallbacks_callback [of L event "ranged (callbacks c) order"]
      rangeCallbacks_error [of L event "ranged (callbacks c) order" ErrMissingCallback]
    by auto
qed

end
